theory Spec2Isabelle
  imports Main "HOL-Library.Multiset"
begin

section \<open>Python values\<close>

text \<open>
  A Python \<open>str\<close> is a sequence of Unicode code points and a \<open>bytes\<close> object a
  sequence of octets; both are lists of naturals here.  \<open>ustr\<close> turns an ASCII literal
  into the \<open>str\<close> with the same characters.
\<close>

type_synonym pystr = "nat list"
type_synonym pybytes = "nat list"

definition ustr :: "string \<Rightarrow> pystr" where
  "ustr s = map of_char s"

text \<open>
  The arguments of the credential pipeline are dynamically typed: \<open>None\<close>, a \<open>str\<close>,
  or any other object (the branch \<open>not isinstance(x, str)\<close>).
\<close>

datatype pyval = PyNone | PyStr pystr | PyOther

datatype exn = ValueError | BinasciiError | UnicodeDecodeError

definition startswith :: "pystr \<Rightarrow> pystr \<Rightarrow> bool" where
  "startswith s pre = (take (length pre) s = pre)"

definition endswith :: "pystr \<Rightarrow> pystr \<Rightarrow> bool" where
  "endswith s suf = (length suf \<le> length s \<and> drop (length s - length suf) s = suf)"

section \<open>\<open>fnmatch.fnmatch\<close> (CPython 3.11, POSIX)\<close>

text \<open>
  \<open>fnmatch.translate\<close> turns a shell pattern into a regular expression made of
  \<open>.*\<close> (\<open>STAR\<close>), \<open>.\<close> under the flag \<open>s\<close> (\<open>DOT\<close>), the never-matching
  \<open>(?!)\<close> (\<open>FAIL\<close>), an escaped character (\<open>LIT\<close>) and a character set
  (\<open>SET negated chunks\<close>).  The chunks of a set are the pieces of the bracket body
  between its range hyphens: the last character of a chunk and the first of the next
  one delimit a range, every other character stands for itself.
\<close>

datatype tok = STAR | DOT | FAIL | LIT nat | SET bool "pystr list"

text \<open>
  The scan for the closing bracket, on the text after \<open>[\<close>: skip one \<open>!\<close>, skip one
  \<open>]\<close>, then run to the next \<open>]\<close>.  The result is its index, \<open>None\<close> for \<open>j >= n\<close>.
\<close>

definition bracket_end :: "pystr \<Rightarrow> nat option" where
  "bracket_end rest =
     (let j0 = (if 0 < length rest \<and> rest ! 0 = 33 then 1 else 0);
          j1 = (if j0 < length rest \<and> rest ! j0 = 93 then j0 + 1 else j0);
          j2 = j1 + length (takeWhile (\<lambda>c. c \<noteq> 93) (drop j1 rest))
      in if j2 \<ge> length rest then None else Some j2)"

text \<open>
  The loop \<open>k = pat.find('-', k, j)\<close>: \<open>sk\<close> counts the characters still to pass before
  a hyphen may be a range operator (one or two at the start, two after an operator,
  from \<open>k = k+3\<close>), \<open>acc\<close> is the current chunk, reversed.  An operator hyphen at the very
  end leaves an empty last chunk, and then \<open>chunks[-1] += '-'\<close>.
\<close>

fun hyphen_chunks :: "nat \<Rightarrow> pystr \<Rightarrow> pystr \<Rightarrow> pystr list" where
  "hyphen_chunks sk acc [] = [rev acc]"
| "hyphen_chunks sk acc (c # cs) =
     (if sk = 0 \<and> c = 45 then
        (if cs = [] then [rev acc @ [45]] else rev acc # hyphen_chunks 2 [] cs)
      else hyphen_chunks (sk - 1) (c # acc) cs)"

text \<open>
  \<open>for k in range(len(chunks)-1, 0, -1)\<close>: from the right, a range whose lower end is
  above its upper end is removed together with both ends.  No chunk is empty where the
  loop reads \<open>chunks[k-1][-1]\<close> and \<open>chunks[k][0]\<close>.
\<close>

fun drop_empty_ranges :: "pystr list \<Rightarrow> pystr list" where
  "drop_empty_ranges [] = []"
| "drop_empty_ranges [a] = [a]"
| "drop_empty_ranges (a # b # cs) =
     (case drop_empty_ranges (b # cs) of
        [] \<Rightarrow> [a]
      | b' # cs' \<Rightarrow>
          if a \<noteq> [] \<and> b' \<noteq> [] \<and> last a > hd b' then (butlast a @ tl b') # cs'
          else a # b' # cs')"

definition bracket_tok :: "pystr \<Rightarrow> tok" where
  "bracket_tok stuff =
     (let chunks =
            (if 45 \<notin> set stuff then [stuff]
             else drop_empty_ranges
                    (hyphen_chunks (if stuff \<noteq> [] \<and> hd stuff = 33 then 2 else 1) [] stuff))
      in if chunks = [[]] then FAIL
         else if chunks = [[33]] then DOT
         else if chunks \<noteq> [] \<and> hd chunks \<noteq> [] \<and> hd (hd chunks) = 33
              then SET True (tl (hd chunks) # tl chunks)
         else SET False chunks)"

fun translate :: "pystr \<Rightarrow> tok list" where
  "translate [] = []"
| "translate (c # rest) =
     (if c = 42 then STAR # translate rest
      else if c = 63 then DOT # translate rest
      else if c = 91 then
        (case bracket_end rest of
           None \<Rightarrow> LIT 91 # translate rest
         | Some j \<Rightarrow> bracket_tok (take j rest) # translate (drop (Suc j) rest))
      else LIT c # translate rest)"

text \<open>\<open>if (not res) or res[-1] is not STAR: add(STAR)\<close>: consecutive stars are one.\<close>

fun compress_stars :: "tok list \<Rightarrow> tok list" where
  "compress_stars (STAR # STAR # ts) = compress_stars (STAR # ts)"
| "compress_stars (t # ts) = t # compress_stars ts"
| "compress_stars [] = []"

fun in_chunks :: "nat \<Rightarrow> pystr list \<Rightarrow> bool" where
  "in_chunks c [] = False"
| "in_chunks c [a] = (c \<in> set a)"
| "in_chunks c (a # b # cs) =
     (c \<in> set a \<or> (a \<noteq> [] \<and> b \<noteq> [] \<and> last a \<le> c \<and> c \<le> hd b) \<or> in_chunks c (b # cs))"

fun tok_accepts :: "tok \<Rightarrow> nat \<Rightarrow> bool" where
  "tok_accepts DOT c = True"
| "tok_accepts (LIT x) c = (x = c)"
| "tok_accepts (SET neg chunks) c = (in_chunks c chunks \<noteq> neg)"
| "tok_accepts STAR c = False"
| "tok_accepts FAIL c = False"

text \<open>
  \<open>re.compile(res).match(name)\<close> for \<open>res = (?s:...)\Z\<close>: the whole name is matched.
  The atomic groups that \<open>translate\<close> wraps around inner stars only cut backtracking;
  the matcher below is the language of the expression.
\<close>

fun regex_match :: "tok list \<Rightarrow> pystr \<Rightarrow> bool" where
  "regex_match [] s = (s = [])"
| "regex_match (STAR # ts) s =
     (regex_match ts s \<or> (case s of [] \<Rightarrow> False | _ # s' \<Rightarrow> regex_match (STAR # ts) s'))"
| "regex_match (FAIL # ts) s = False"
| "regex_match (t # ts) [] = False"
| "regex_match (t # ts) (c # s) = (tok_accepts t c \<and> regex_match ts s)"

text \<open>\<open>os.path.normcase\<close> is the identity on POSIX.\<close>

definition fnmatch :: "pystr \<Rightarrow> pystr \<Rightarrow> bool" where
  "fnmatch name pat = regex_match (compress_stars (translate pat)) name"

section \<open>\<open>api/v1/auth/auth.py\<close>\<close>

text \<open>The loop \<open>for excluded_path in excluded_paths\<close> of \<open>require_auth\<close>.\<close>

fun excluded_loop :: "pystr \<Rightarrow> pystr list \<Rightarrow> bool" where
  "excluded_loop normalized_path [] = True"
| "excluded_loop normalized_path (excluded_path # rest) =
     (if fnmatch normalized_path excluded_path then False
      else excluded_loop normalized_path rest)"

text \<open>
  \<open>Auth.require_auth\<close>: \<open>path\<close> is \<open>None\<close> or a \<open>str\<close>, \<open>excluded_paths\<close> is \<open>None\<close> or a
  list of \<open>str\<close>.
\<close>

definition require_auth :: "pystr option \<Rightarrow> pystr list option \<Rightarrow> bool" where
  "require_auth path excluded_paths =
     (case path of
        None \<Rightarrow> True
      | Some p \<Rightarrow>
          (case excluded_paths of
             None \<Rightarrow> True
           | Some ex \<Rightarrow>
               if ex = [] then True
               else
                 let p1 = (if \<not> endswith p [47] then p @ [47] else p) in
                 if p1 \<in> set ex then False
                 else if length ex = 0 then True
                 else
                   let normalized_path = (if endswith p1 [47] then p1 else p1 @ [47])
                   in excluded_loop normalized_path ex))"

text \<open>
  \<open>Auth.authorization_header\<close>: the request is \<open>None\<close> or an object whose
  \<open>headers.get\<close> maps a header name to its value, \<open>None\<close> when the header is missing.
\<close>

record request =
  headers_get :: "pystr \<Rightarrow> pyval"

definition authorization_header :: "request option \<Rightarrow> pyval" where
  "authorization_header req =
     (case req of None \<Rightarrow> PyNone | Some r \<Rightarrow> headers_get r (ustr ''Authorization''))"

section \<open>\<open>base64.b64decode\<close> and \<open>bytes.decode('utf-8')\<close> (CPython 3.11)\<close>

text \<open>
  \<open>table_a2b_base64\<close>: the value of a character of the alphabet \<open>A-Z a-z 0-9 + /\<close>,
  \<open>None\<close> for every other octet.
\<close>

definition table_a2b_base64 :: "nat \<Rightarrow> nat option" where
  "table_a2b_base64 c =
     (if 65 \<le> c \<and> c \<le> 90 then Some (c - 65)
      else if 97 \<le> c \<and> c \<le> 122 then Some (c - 71)
      else if 48 \<le> c \<and> c \<le> 57 then Some (c + 4)
      else if c = 43 then Some 62
      else if c = 47 then Some 63
      else None)"

text \<open>
  The loop of \<open>binascii.a2b_base64\<close> with \<open>strict_mode = 0\<close>.  A pad \<open>=\<close> (61) ends
  the input once the quad holds at least two characters and the pads complete it, and is
  skipped otherwise; an octet outside the alphabet is skipped; a character of the alphabet
  is shifted into the quad.  \<open>leftchar\<close> stays below 64, so the shifted sums below are
  the octets \<open>(leftchar << 2) | (this_ch >> 4)\<close>, \<open>(leftchar << 4) | (this_ch >> 2)\<close> and
  \<open>(leftchar << 6) | this_ch\<close>.  Input that ends inside a quad raises \<open>binascii.Error\<close>.
\<close>

fun a2b_loop :: "nat \<Rightarrow> nat \<Rightarrow> nat \<Rightarrow> pybytes \<Rightarrow> pybytes \<Rightarrow> exn + pybytes" where
  "a2b_loop quad_pos leftchar pads out [] =
     (if quad_pos \<noteq> 0 then Inl BinasciiError else Inr out)"
| "a2b_loop quad_pos leftchar pads out (this_ch # rest) =
     (if this_ch = 61 then
        (if quad_pos \<ge> 2 \<and> quad_pos + (pads + 1) \<ge> 4 then Inr out
         else a2b_loop quad_pos leftchar (if quad_pos \<ge> 2 then pads + 1 else pads) out rest)
      else
        (case table_a2b_base64 this_ch of
           None \<Rightarrow> a2b_loop quad_pos leftchar pads out rest
         | Some v \<Rightarrow>
             if quad_pos = 0 then a2b_loop 1 v 0 out rest
             else if quad_pos = 1 then
               a2b_loop 2 (v mod 16) 0 (out @ [leftchar * 4 + v div 16]) rest
             else if quad_pos = 2 then
               a2b_loop 3 (v mod 4) 0 (out @ [leftchar * 16 + v div 4]) rest
             else a2b_loop 0 0 0 (out @ [leftchar * 64 + v]) rest))"

text \<open>
  \<open>base64.b64decode(s)\<close> for a \<open>str\<close>, with the default \<open>validate=False\<close>:
  \<open>s.encode('ascii')\<close> first, and a \<open>ValueError\<close> when a character is not ASCII.
\<close>

definition b64decode :: "pystr \<Rightarrow> exn + pybytes" where
  "b64decode s =
     (if list_all (\<lambda>c. c < 128) s then a2b_loop 0 0 0 [] s else Inl ValueError)"

definition is_cont :: "nat \<Rightarrow> bool" where
  "is_cont b = (128 \<le> b \<and> b \<le> 191)"

text \<open>
  The strict UTF-8 decoder: no overlong form, no surrogate, nothing above \<open>U+10FFFF\<close>.
  \<open>None\<close> stands for \<open>UnicodeDecodeError\<close>.
\<close>

fun utf8_decode :: "pybytes \<Rightarrow> pystr option" where
  "utf8_decode [] = Some []"
| "utf8_decode (b # bs) =
     (if b < 128 then map_option ((#) b) (utf8_decode bs)
      else if 194 \<le> b \<and> b \<le> 223 then
        (case bs of
           b1 # r \<Rightarrow>
             if is_cont b1
             then map_option ((#) ((b mod 32) * 64 + b1 mod 64)) (utf8_decode r)
             else None
         | _ \<Rightarrow> None)
      else if 224 \<le> b \<and> b \<le> 239 then
        (case bs of
           b1 # b2 # r \<Rightarrow>
             if is_cont b1 \<and> is_cont b2 \<and> \<not> (b = 224 \<and> b1 < 160) \<and> \<not> (b = 237 \<and> b1 > 159)
             then map_option ((#) ((b mod 16) * 4096 + (b1 mod 64) * 64 + b2 mod 64))
                    (utf8_decode r)
             else None
         | _ \<Rightarrow> None)
      else if 240 \<le> b \<and> b \<le> 244 then
        (case bs of
           b1 # b2 # b3 # r \<Rightarrow>
             if is_cont b1 \<and> is_cont b2 \<and> is_cont b3
                \<and> \<not> (b = 240 \<and> b1 < 144) \<and> \<not> (b = 244 \<and> b1 > 143)
             then map_option
                    ((#) ((b mod 8) * 262144 + (b1 mod 64) * 4096 + (b2 mod 64) * 64 + b3 mod 64))
                    (utf8_decode r)
             else None
         | _ \<Rightarrow> None)
      else None)"

definition bytes_decode :: "pybytes \<Rightarrow> exn + pystr" where
  "bytes_decode bs = (case utf8_decode bs of None \<Rightarrow> Inl UnicodeDecodeError | Some s \<Rightarrow> Inr s)"

section \<open>\<open>api/v1/auth/basic_auth.py\<close>\<close>

definition extract_base64_authorization_header :: "pyval \<Rightarrow> pyval" where
  "extract_base64_authorization_header header =
     (case header of
        PyNone \<Rightarrow> PyNone
      | PyOther \<Rightarrow> PyNone
      | PyStr h \<Rightarrow>
          if \<not> startswith h (ustr ''Basic '') then PyNone
          else PyStr (drop (length (ustr ''Basic '')) h))"

text \<open>
  The body of the \<open>try\<close>, then the handler
  \<open>except (base64.binascii.Error, UnicodeDecodeError)\<close>: any other exception leaves the
  function.
\<close>

definition decode_base64_authorization_header :: "pyval \<Rightarrow> exn + pyval" where
  "decode_base64_authorization_header base64_authorization_header =
     (case base64_authorization_header of
        PyNone \<Rightarrow> Inr PyNone
      | PyOther \<Rightarrow> Inr PyNone
      | PyStr s \<Rightarrow>
          (case (case b64decode s of
                   Inl e \<Rightarrow> Inl e
                 | Inr decoded_bytes \<Rightarrow> bytes_decode decoded_bytes) of
             Inl e \<Rightarrow> if e = BinasciiError \<or> e = UnicodeDecodeError then Inr PyNone else Inl e
           | Inr text \<Rightarrow> Inr (PyStr text)))"

text \<open>\<open>split(':', 1)\<close> cuts at the first colon (58).\<close>

definition extract_user_credentials :: "pyval \<Rightarrow> pyval \<times> pyval" where
  "extract_user_credentials decoded_base64_authorization_header =
     (case decoded_base64_authorization_header of
        PyNone \<Rightarrow> (PyNone, PyNone)
      | PyOther \<Rightarrow> (PyNone, PyNone)
      | PyStr d \<Rightarrow>
          if 58 \<notin> set d then (PyNone, PyNone)
          else (PyStr (takeWhile (\<lambda>c. c \<noteq> 58) d), PyStr (tl (dropWhile (\<lambda>c. c \<noteq> 58) d))))"

text \<open>
  The user model is outside this module: \<open>search\<close> stands for
  \<open>User.search({'email': user_email})\<close> and \<open>is_valid_password\<close> for the method of the
  user object.
\<close>

record 'u user_model =
  search :: "pystr \<Rightarrow> 'u list"
  is_valid_password :: "'u \<Rightarrow> pystr \<Rightarrow> bool"

definition user_object_from_credentials ::
  "'u user_model \<Rightarrow> pyval \<Rightarrow> pyval \<Rightarrow> 'u option" where
  "user_object_from_credentials User user_email user_pwd =
     (case user_email of
        PyNone \<Rightarrow> None
      | PyOther \<Rightarrow> None
      | PyStr email \<Rightarrow>
          (case user_pwd of
             PyNone \<Rightarrow> None
           | PyOther \<Rightarrow> None
           | PyStr pwd \<Rightarrow>
               (case search User email of
                  [] \<Rightarrow> None
                | user # _ \<Rightarrow>
                    if \<not> is_valid_password User user pwd then None else Some user)))"

definition current_user :: "'u user_model \<Rightarrow> request option \<Rightarrow> exn + 'u option" where
  "current_user User req =
     (let header = authorization_header req in
      if header = PyNone then Inr None
      else
        let base64_header = extract_base64_authorization_header header in
        if base64_header = PyNone then Inr None
        else
          (case decode_base64_authorization_header base64_header of
             Inl e \<Rightarrow> Inl e
           | Inr decoded_header \<Rightarrow>
               if decoded_header = PyNone then Inr None
               else
                 (case extract_user_credentials decoded_header of
                    (user_email, user_pwd) \<Rightarrow>
                      if user_email = PyNone \<or> user_pwd = PyNone then Inr None
                      else Inr (user_object_from_credentials User user_email user_pwd))))"

section \<open>The client side: UTF-8 and Base64 encoding (RFC 3629, RFC 4648)\<close>

text \<open>
  \<open>str.encode('utf-8')\<close>: \<open>None\<close> stands for \<open>UnicodeEncodeError\<close>, raised on a
  surrogate code point.
\<close>

definition utf8_encode_char :: "nat \<Rightarrow> pybytes option" where
  "utf8_encode_char c =
     (if c < 128 then Some [c]
      else if c < 2048 then Some [192 + c div 64, 128 + c mod 64]
      else if c < 65536 then
        (if 55296 \<le> c \<and> c \<le> 57343 then None
         else Some [224 + c div 4096, 128 + (c div 64) mod 64, 128 + c mod 64])
      else if c < 1114112 then
        Some [240 + c div 262144, 128 + (c div 4096) mod 64, 128 + (c div 64) mod 64,
              128 + c mod 64]
      else None)"

fun utf8_encode :: "pystr \<Rightarrow> pybytes option" where
  "utf8_encode [] = Some []"
| "utf8_encode (c # cs) =
     (case utf8_encode_char c of
        None \<Rightarrow> None
      | Some bs \<Rightarrow> map_option ((@) bs) (utf8_encode cs))"

definition b64char :: "nat \<Rightarrow> nat" where
  "b64char v =
     (if v < 26 then 65 + v
      else if v < 52 then 71 + v
      else if v < 62 then v - 4
      else if v = 62 then 43
      else 47)"

fun b64encode :: "pybytes \<Rightarrow> pystr" where
  "b64encode [] = []"
| "b64encode [a] = [b64char (a div 4), b64char ((a mod 4) * 16), 61, 61]"
| "b64encode [a, b] =
     [b64char (a div 4), b64char ((a mod 4) * 16 + b div 16), b64char ((b mod 16) * 4), 61]"
| "b64encode (a # b # c # rest) =
     [b64char (a div 4), b64char ((a mod 4) * 16 + b div 16),
      b64char ((b mod 16) * 4 + c div 64), b64char (c mod 64)] @ b64encode rest"

section \<open>The access gate\<close>

lemma excluded_loop_iff:
  "excluded_loop np ex = (\<forall>e\<in>set ex. \<not> fnmatch np e)"
  by (induction ex) auto

lemma require_auth_Some:
  "require_auth (Some p) (Some ex) =
     (ex = [] \<or> ((if endswith p [47] then p else p @ [47]) \<notin> set ex
                 \<and> (\<forall>e\<in>set ex. \<not> fnmatch (if endswith p [47] then p else p @ [47]) e)))"
  by (auto simp: require_auth_def excluded_loop_iff Let_def endswith_def)

text \<open>
  C6.  Fail-secure defaults: whatever the exclusion list, \<open>require_auth\<close> of an absent
  path is true; whatever the path, \<open>require_auth\<close> with an empty exclusion list is true.
\<close>

theorem require_auth_fail_secure:
  "require_auth None excluded_paths = True \<and> require_auth path (Some []) = True"
  by (simp add: require_auth_def split: option.splits)

text \<open>
  C7.  The three vectors of the specification: \<open>/api/v1/status\<close> against
  \<open>/api/v1/status/\<close> is exempt (the trailing separator is added), \<open>/api/v1/users/55\<close>
  against \<open>/api/v1/stat*\<close> requires authentication (no glob match), and
  \<open>/api/v1/stats/\<close> against \<open>/api/v1/stat*\<close> is exempt (glob match).
\<close>

theorem require_auth_vectors:
  "require_auth (Some (ustr ''/api/v1/status'')) (Some [ustr ''/api/v1/status/'']) = False
   \<and> require_auth (Some (ustr ''/api/v1/users/55'')) (Some [ustr ''/api/v1/stat*'']) = True
   \<and> require_auth (Some (ustr ''/api/v1/stats/'')) (Some [ustr ''/api/v1/stat*'']) = False"
  by (simp add: require_auth_def ustr_def endswith_def fnmatch_def)

text \<open>
  C9.  The result of \<open>require_auth\<close> does not depend on the order of the exclusion list:
  two lists that are permutations of each other give the same boolean, for every path.
\<close>

theorem require_auth_permutation:
  assumes "mset ex1 = mset ex2"
  shows "require_auth path (Some ex1) = require_auth path (Some ex2)"
proof (cases path)
  case None
  then show ?thesis by (simp add: require_auth_def)
next
  case (Some p)
  from assms have s: "set ex1 = set ex2" by (rule mset_eq_setD)
  then have e: "(ex1 = []) = (ex2 = [])" by (metis set_empty)
  show ?thesis unfolding Some require_auth_Some s e ..
qed

theorem require_auth_permutation_witness:
  "mset [ustr ''/api/v1/users/'', ustr ''/api/v1/stat*'']
     = mset [ustr ''/api/v1/stat*'', ustr ''/api/v1/users/'']
   \<and> require_auth (Some (ustr ''/api/v1/stats''))
         (Some [ustr ''/api/v1/users/'', ustr ''/api/v1/stat*''])
     = require_auth (Some (ustr ''/api/v1/stats''))
         (Some [ustr ''/api/v1/stat*'', ustr ''/api/v1/users/''])"
proof -
  have h: "mset [ustr ''/api/v1/users/'', ustr ''/api/v1/stat*'']
             = mset [ustr ''/api/v1/stat*'', ustr ''/api/v1/users/'']"
    by simp
  show ?thesis
    using h require_auth_permutation [OF h, of "Some (ustr ''/api/v1/stats'')"] by simp
qed

text \<open>
  C2, as stated, fails: the path \<open>/api/v1/status\<close> has no trailing separator and the
  exclusion list holds it verbatim, yet \<open>require_auth\<close> is true.  The separator is
  appended before the equality test, so the literal form is never compared.
\<close>

theorem require_auth_raw_entry_counterexample:
  "\<not> endswith (ustr ''/api/v1/status'') [47]
   \<and> ustr ''/api/v1/status'' \<in> set [ustr ''/api/v1/status'']
   \<and> require_auth (Some (ustr ''/api/v1/status'')) (Some [ustr ''/api/v1/status'']) = True"
  by (simp add: require_auth_def ustr_def endswith_def fnmatch_def)

text \<open>
  C2, amended.  The equality test comes before any wildcard matching, compares with the
  entries of the exclusion list as given, and tests the normalized form of the path only
  (the path itself when it ends with the separator, the path followed by the separator
  otherwise): when the exclusion list holds that form verbatim, \<open>require_auth\<close> is
  false, whatever the other entries are.
\<close>

theorem require_auth_exact_normalized:
  assumes "(if endswith p [47] then p else p @ [47]) \<in> set ex"
  shows "require_auth (Some p) (Some ex) = False"
  using assms by (auto simp: require_auth_Some)

theorem require_auth_exact_normalized_witness:
  "(if endswith (ustr ''/api/v1/status'') [47] then ustr ''/api/v1/status''
    else ustr ''/api/v1/status'' @ [47]) \<in> set [ustr ''[bad'', ustr ''/api/v1/status/'']
   \<and> require_auth (Some (ustr ''/api/v1/status''))
         (Some [ustr ''[bad'', ustr ''/api/v1/status/'']) = False"
proof -
  have h: "(if endswith (ustr ''/api/v1/status'') [47] then ustr ''/api/v1/status''
            else ustr ''/api/v1/status'' @ [47]) \<in> set [ustr ''[bad'', ustr ''/api/v1/status/'']"
    by (simp add: ustr_def endswith_def)
  show ?thesis
    using h require_auth_exact_normalized [OF h] by simp
qed

section \<open>The credential pipeline\<close>

lemma startswith_iff: "startswith s pre = (\<exists>r. s = pre @ r)"
  unfolding startswith_def
  by (metis append_eq_conv_conj append_take_drop_id)

lemma extract_base64_PyStr:
  "extract_base64_authorization_header (PyStr h) =
     (if startswith h (ustr ''Basic '') then PyStr (drop (length (ustr ''Basic '')) h)
      else PyNone)"
  by (simp add: extract_base64_authorization_header_def)

lemma extract_base64_Basic:
  "extract_base64_authorization_header (PyStr (ustr ''Basic '' @ r)) = PyStr r"
  by (simp add: extract_base64_PyStr startswith_def)

lemma not_startswith_Bearer: "\<not> startswith (ustr ''Bearer '' @ payload) (ustr ''Basic '')"
  by (simp add: startswith_def ustr_def)

lemma current_user_wrong_scheme:
  assumes "authorization_header req = v" "extract_base64_authorization_header v = PyNone"
  shows "current_user User req = Inr None"
  using assms by (simp add: current_user_def Let_def)

text \<open>
  C8.  The scheme-strip stage returns the text after the prefix exactly when its input is
  a string that begins with \<open>Basic\<close> and one space: \<open>Basic \<close> followed by \<open>r\<close> gives
  \<open>r\<close>, and a result other than \<open>None\<close> only comes from such an input.  Every other
  string gives \<open>None\<close>, and \<open>current_user\<close> on a request with such a header returns
  \<open>None\<close>; so it is for a header that begins with \<open>Bearer \<close>, whatever follows.
\<close>

theorem scheme_strip_exact:
  "extract_base64_authorization_header (PyStr (ustr ''Basic '' @ r)) = PyStr r
   \<and> (extract_base64_authorization_header v \<noteq> PyNone
        \<longrightarrow> (\<exists>r. v = PyStr (ustr ''Basic '' @ r) \<and> extract_base64_authorization_header v = PyStr r))
   \<and> (\<not> startswith h (ustr ''Basic '')
        \<longrightarrow> extract_base64_authorization_header (PyStr h) = PyNone
            \<and> (authorization_header req = PyStr h \<longrightarrow> current_user User req = Inr None))
   \<and> extract_base64_authorization_header (PyStr (ustr ''Bearer '' @ payload)) = PyNone
   \<and> (authorization_header req' = PyStr (ustr ''Bearer '' @ payload)
        \<longrightarrow> current_user User req' = Inr None)"
proof (intro conjI impI)
  show "extract_base64_authorization_header (PyStr (ustr ''Basic '' @ r)) = PyStr r"
    by (rule extract_base64_Basic)
next
  assume a: "extract_base64_authorization_header v \<noteq> PyNone"
  then obtain s where v: "v = PyStr s"
    by (cases v) (simp_all add: extract_base64_authorization_header_def)
  with a have "startswith s (ustr ''Basic '')"
    by (simp add: extract_base64_PyStr split: if_splits)
  then obtain r where "s = ustr ''Basic '' @ r" unfolding startswith_iff ..
  with v show "\<exists>r. v = PyStr (ustr ''Basic '' @ r) \<and> extract_base64_authorization_header v = PyStr r"
    by (simp add: extract_base64_Basic)
next
  assume n: "\<not> startswith h (ustr ''Basic '')"
  then show e: "extract_base64_authorization_header (PyStr h) = PyNone"
    by (simp add: extract_base64_PyStr)
  assume "authorization_header req = PyStr h"
  then show "current_user User req = Inr None"
    using e by (rule current_user_wrong_scheme)
next
  show b: "extract_base64_authorization_header (PyStr (ustr ''Bearer '' @ payload)) = PyNone"
    by (simp add: extract_base64_PyStr not_startswith_Bearer)
  assume "authorization_header req' = PyStr (ustr ''Bearer '' @ payload)"
  then show "current_user User req' = Inr None"
    using b by (rule current_user_wrong_scheme)
qed

theorem scheme_strip_exact_witness:
  "\<not> startswith (ustr ''Bearer eHl6'') (ustr ''Basic '')
   \<and> authorization_header
        (Some \<lparr>headers_get = (\<lambda>_. PyNone)(ustr ''Authorization'' := PyStr (ustr ''Bearer eHl6''))\<rparr>)
       = PyStr (ustr ''Bearer eHl6'')
   \<and> extract_base64_authorization_header (PyStr (ustr ''Bearer eHl6'')) = PyNone
   \<and> current_user \<lparr>search = (\<lambda>_. [0::nat]), is_valid_password = (\<lambda>_ _. True)\<rparr>
        (Some \<lparr>headers_get = (\<lambda>_. PyNone)(ustr ''Authorization'' := PyStr (ustr ''Bearer eHl6''))\<rparr>)
       = Inr None"
proof -
  have h: "\<not> startswith (ustr ''Bearer eHl6'') (ustr ''Basic '')"
    by (simp add: startswith_def ustr_def)
  have a: "authorization_header
        (Some \<lparr>headers_get = (\<lambda>_. PyNone)(ustr ''Authorization'' := PyStr (ustr ''Bearer eHl6''))\<rparr>)
       = PyStr (ustr ''Bearer eHl6'')"
    by (simp add: authorization_header_def)
  show ?thesis
    using h a scheme_strip_exact [of _ _ "ustr ''Bearer eHl6''"
      "Some \<lparr>headers_get = (\<lambda>_. PyNone)(ustr ''Authorization'' := PyStr (ustr ''Bearer eHl6''))\<rparr>"
      "\<lparr>search = (\<lambda>_. [0::nat]), is_valid_password = (\<lambda>_ _. True)\<rparr>"]
    by blast
qed

lemma decode_empty: "decode_base64_authorization_header (PyStr []) = Inr (PyStr [])"
  by (simp add: decode_base64_authorization_header_def b64decode_def bytes_decode_def)

text \<open>
  C10.  For a request whose authorization header is exactly \<open>Basic \<close>, the scheme-strip
  stage gives the empty string, the decode stage decodes it to the empty string, the
  split stage finds no colon and gives \<open>(None, None)\<close>, and \<open>current_user\<close> returns
  \<open>None\<close>: no exception and no principal.
\<close>

theorem empty_payload_absent:
  assumes "authorization_header req = PyStr (ustr ''Basic '')"
  shows "extract_base64_authorization_header (PyStr (ustr ''Basic '')) = PyStr []
    \<and> decode_base64_authorization_header (PyStr []) = Inr (PyStr [])
    \<and> extract_user_credentials (PyStr []) = (PyNone, PyNone)
    \<and> current_user User req = Inr None"
  using assms extract_base64_Basic [of "[]"]
  by (simp add: current_user_def decode_empty extract_user_credentials_def)

theorem empty_payload_absent_witness:
  "authorization_header
     (Some \<lparr>headers_get = (\<lambda>_. PyNone)(ustr ''Authorization'' := PyStr (ustr ''Basic ''))\<rparr>)
     = PyStr (ustr ''Basic '')
   \<and> current_user \<lparr>search = (\<lambda>_. [0::nat]), is_valid_password = (\<lambda>_ _. True)\<rparr>
        (Some \<lparr>headers_get = (\<lambda>_. PyNone)(ustr ''Authorization'' := PyStr (ustr ''Basic ''))\<rparr>)
       = Inr None"
proof -
  have a: "authorization_header
     (Some \<lparr>headers_get = (\<lambda>_. PyNone)(ustr ''Authorization'' := PyStr (ustr ''Basic ''))\<rparr>)
     = PyStr (ustr ''Basic '')"
    by (simp add: authorization_header_def)
  show ?thesis
    using a empty_payload_absent [OF a, of "\<lparr>search = (\<lambda>_. [0::nat]), is_valid_password = (\<lambda>_ _. True)\<rparr>"]
    by simp
qed

lemma b64decode_non_ascii:
  "\<not> list_all (\<lambda>c. c < 128) s \<Longrightarrow> decode_base64_authorization_header (PyStr s) = Inl ValueError"
  by (simp add: decode_base64_authorization_header_def b64decode_def)

lemma current_user_non_ascii:
  assumes "authorization_header req = PyStr (ustr ''Basic '' @ payload)"
    and "\<not> list_all (\<lambda>c. c < 128) payload"
  shows "current_user User req = Inl ValueError"
  using assms
  by (simp add: current_user_def extract_base64_Basic b64decode_non_ascii)

text \<open>
  C4 fails on the code.  The payload \<open>U+00E9\<close> is not ASCII: \<open>base64.b64decode\<close> raises
  \<open>ValueError\<close>, which the handler of \<open>decode_base64_authorization_header\<close> does not
  catch, and the exception leaves \<open>current_user\<close>.
\<close>

theorem non_ascii_header_raises:
  "decode_base64_authorization_header (PyStr [233]) = Inl ValueError
   \<and> current_user User
        (Some \<lparr>headers_get = (\<lambda>_. PyNone)(ustr ''Authorization'' := PyStr (ustr ''Basic '' @ [233]))\<rparr>)
       = Inl ValueError"
proof
  show "decode_base64_authorization_header (PyStr [233]) = Inl ValueError"
    by (rule b64decode_non_ascii) simp
  show "current_user User
        (Some \<lparr>headers_get = (\<lambda>_. PyNone)(ustr ''Authorization'' := PyStr (ustr ''Basic '' @ [233]))\<rparr>)
       = Inl ValueError"
    by (rule current_user_non_ascii [where payload = "[233]"]) (simp_all add: authorization_header_def)
qed

text \<open>
  C1 fails on the code at a request whose header is \<open>Basic Ym9iOnB3ZA==\<close> followed by
  \<open>U+00FC\<close>: the decode stage does not succeed, yet \<open>current_user\<close> does not return
  \<open>None\<close>; it raises \<open>ValueError\<close>.
\<close>

theorem resolve_neither_principal_nor_absent:
  "current_user User
     (Some \<lparr>headers_get =
        (\<lambda>_. PyNone)(ustr ''Authorization'' := PyStr (ustr ''Basic Ym9iOnB3ZA=='' @ [252]))\<rparr>)
   = Inl ValueError"
  by (rule current_user_non_ascii [where payload = "ustr ''Ym9iOnB3ZA=='' @ [252]"])
     (simp_all add: authorization_header_def ustr_def)

text \<open>
  C3, as stated, fails: \<open>!\<close> (33) is outside the Base64 alphabet and is not the pad, yet
  the decode stage returns \<open>hi\<close> on \<open>!aGk=\<close>.
\<close>

theorem decode_lenient_counterexample:
  "33 \<in> set (ustr ''!aGk='') \<and> table_a2b_base64 33 = None \<and> (33::nat) \<noteq> 61
   \<and> decode_base64_authorization_header (PyStr (ustr ''!aGk='')) = Inr (PyStr (ustr ''hi''))"
  by (simp add: ustr_def table_a2b_base64_def decode_base64_authorization_header_def
        b64decode_def bytes_decode_def)

section \<open>Base64 round trip\<close>

lemma table_b64char:
  "v < 64 \<Longrightarrow> table_a2b_base64 (b64char v) = Some v"
  by (auto simp: table_a2b_base64_def b64char_def)

lemma b64char_not_pad: "b64char v \<noteq> 61"
  by (auto simp: b64char_def)

lemma b64char_ascii: "b64char v < 128"
  by (auto simp: b64char_def)

lemma a2b_loop_data:
  assumes "v < 64"
  shows "a2b_loop 0 l p out (b64char v # rest) = a2b_loop 1 v 0 out rest"
    and "a2b_loop 1 l p out (b64char v # rest) =
           a2b_loop 2 (v mod 16) 0 (out @ [l * 4 + v div 16]) rest"
    and "a2b_loop 2 l p out (b64char v # rest) =
           a2b_loop 3 (v mod 4) 0 (out @ [l * 16 + v div 4]) rest"
    and "a2b_loop 3 l p out (b64char v # rest) = a2b_loop 0 0 0 (out @ [l * 64 + v]) rest"
  using assms by (simp_all add: table_b64char b64char_not_pad)

lemma a2b_loop_pad:
  "a2b_loop 2 l 0 out (61 # 61 # rest) = Inr out"
  "a2b_loop 3 l 0 out (61 # rest) = Inr out"
  by simp_all

lemma a2b_loop_quad:
  assumes "a < 256" "b < 256" "c < 256"
  shows "a2b_loop 0 l p out
           (b64char (a div 4) # b64char ((a mod 4) * 16 + b div 16)
            # b64char ((b mod 16) * 4 + c div 64) # b64char (c mod 64) # rest)
         = a2b_loop 0 0 0 (out @ [a, b, c]) rest"
proof -
  have s: "a div 4 < 64" "(a mod 4) * 16 + b div 16 < 64"
    "(b mod 16) * 4 + c div 64 < 64" "c mod 64 < 64"
    using assms by auto
  have b1: "a div 4 * 4 + ((a mod 4) * 16 + b div 16) div 16 = a"
    using assms by auto
  have b2: "((a mod 4) * 16 + b div 16) mod 16 * 16 + ((b mod 16) * 4 + c div 64) div 4 = b"
    using assms by auto
  have b3: "((b mod 16) * 4 + c div 64) mod 4 * 64 + c mod 64 = c"
    using assms by auto
  show ?thesis
    by (simp only: a2b_loop_data(1) [OF s(1)] a2b_loop_data(2) [OF s(2)]
          a2b_loop_data(3) [OF s(3)] a2b_loop_data(4) [OF s(4)] b1 b2 b3 append_assoc
          append_Cons append_Nil)
qed

lemma a2b_loop_last1:
  assumes "a < 256"
  shows "a2b_loop 0 l p out [b64char (a div 4), b64char ((a mod 4) * 16), 61, 61]
         = Inr (out @ [a])"
proof -
  have s: "a div 4 < 64" "(a mod 4) * 16 < 64"
    using assms by auto
  have b1: "a div 4 * 4 + (a mod 4) * 16 div 16 = a"
    by auto
  show ?thesis
    by (simp only: a2b_loop_data(1) [OF s(1)] a2b_loop_data(2) [OF s(2)] a2b_loop_pad b1)
qed

lemma a2b_loop_last2:
  assumes "a < 256" "b < 256"
  shows "a2b_loop 0 l p out
           [b64char (a div 4), b64char ((a mod 4) * 16 + b div 16), b64char ((b mod 16) * 4), 61]
         = Inr (out @ [a, b])"
proof -
  have s: "a div 4 < 64" "(a mod 4) * 16 + b div 16 < 64" "(b mod 16) * 4 < 64"
    using assms by auto
  have b1: "a div 4 * 4 + ((a mod 4) * 16 + b div 16) div 16 = a"
    using assms by auto
  have b2: "((a mod 4) * 16 + b div 16) mod 16 * 16 + (b mod 16) * 4 div 4 = b"
    using assms by auto
  show ?thesis
    by (simp only: a2b_loop_data(1) [OF s(1)] a2b_loop_data(2) [OF s(2)]
          a2b_loop_data(3) [OF s(3)] a2b_loop_pad b1 b2 append_assoc append_Cons append_Nil)
qed

lemma a2b_loop_b64encode:
  "list_all (\<lambda>b. b < 256) bs \<Longrightarrow> a2b_loop 0 l p out (b64encode bs) = Inr (out @ bs)"
proof (induction bs arbitrary: l p out rule: b64encode.induct)
  case 1
  then show ?case by simp
next
  case (2 a)
  then show ?case by (simp add: a2b_loop_last1 del: a2b_loop.simps)
next
  case (3 a b)
  then show ?case by (simp add: a2b_loop_last2 del: a2b_loop.simps)
next
  case (4 a b c rest)
  then have "a < 256" "b < 256" "c < 256" "list_all (\<lambda>b. b < 256) rest" by auto
  then show ?case
    using "4.IH" by (simp add: a2b_loop_quad del: a2b_loop.simps)
qed

lemma b64encode_ascii: "list_all (\<lambda>c. c < 128) (b64encode bs)"
  by (induction bs rule: b64encode.induct) (simp_all add: b64char_ascii)

lemma b64decode_b64encode:
  "list_all (\<lambda>b. b < 256) bs \<Longrightarrow> b64decode (b64encode bs) = Inr bs"
  by (simp add: b64decode_def b64encode_ascii a2b_loop_b64encode)

section \<open>UTF-8 round trip\<close>

lemma mod_off: "q < m \<Longrightarrow> (k * m + q) mod m = (q::nat)"
  by simp

lemma lead_mod:
  fixes q :: nat
  shows "q < 32 \<Longrightarrow> (192 + q) mod 32 = q"
    and "q < 16 \<Longrightarrow> (224 + q) mod 16 = q"
    and "q < 8 \<Longrightarrow> (240 + q) mod 8 = q"
    and "q < 64 \<Longrightarrow> (128 + q) mod 64 = q"
  using mod_off [of q 32 6] mod_off [of q 16 14] mod_off [of q 8 30] mod_off [of q 64 2]
  by simp_all

lemma utf8_decode_two:
  assumes "2 \<le> q" "q < 32" "r < 64"
  shows "utf8_decode ([192 + q, 128 + r] @ rest) = map_option ((#) (q * 64 + r)) (utf8_decode rest)"
  using assms by (simp add: is_cont_def lead_mod)

lemma utf8_decode_three:
  assumes "q < 16" "m < 64" "r < 64" "q = 0 \<longrightarrow> 32 \<le> m" "q = 13 \<longrightarrow> m < 32"
  shows "utf8_decode ([224 + q, 128 + m, 128 + r] @ rest)
         = map_option ((#) (q * 4096 + m * 64 + r)) (utf8_decode rest)"
  using assms by (auto simp: is_cont_def lead_mod)

lemma utf8_decode_four:
  assumes "p < 5" "n < 64" "m < 64" "r < 64" "p = 0 \<longrightarrow> 16 \<le> n" "p = 4 \<longrightarrow> n < 16"
  shows "utf8_decode ([240 + p, 128 + n, 128 + m, 128 + r] @ rest)
         = map_option ((#) (p * 262144 + n * 4096 + m * 64 + r)) (utf8_decode rest)"
  using assms by (auto simp: is_cont_def lead_mod)


lemma digits3:
  fixes c :: nat
  assumes "2048 \<le> c" "c < 65536" "\<not> (55296 \<le> c \<and> c \<le> 57343)"
  shows "c div 4096 < 16 \<and> (c div 64) mod 64 < 64 \<and> c mod 64 < 64
    \<and> (c div 4096 = 0 \<longrightarrow> 32 \<le> (c div 64) mod 64)
    \<and> (c div 4096 = 13 \<longrightarrow> (c div 64) mod 64 < 32)
    \<and> c div 4096 * 4096 + (c div 64) mod 64 * 64 + c mod 64 = c"
proof -
  define A r Q m where "A = c div 64" and "r = c mod 64" and "Q = A div 64" and "m = A mod 64"
  have 1: "c = A * 64 + r" "r < 64" by (simp_all add: A_def r_def)
  have 2: "A = Q * 64 + m" "m < 64" by (simp_all add: Q_def m_def)
  have 3: "c div 4096 = Q" unfolding Q_def A_def by (simp add: div_mult2_eq [symmetric])
  have 4: "(c div 64) mod 64 = m" "c mod 64 = r" by (simp_all add: m_def A_def r_def)
  have "Q < 16 \<and> m < 64 \<and> r < 64 \<and> (Q = 0 \<longrightarrow> 32 \<le> m) \<and> (Q = 13 \<longrightarrow> m < 32)
        \<and> Q * 4096 + m * 64 + r = c"
    using 1 2 assms by auto
  then show ?thesis unfolding 3 4 .
qed

lemma digits4:
  fixes c :: nat
  assumes "65536 \<le> c" "c < 1114112"
  shows "c div 262144 < 5 \<and> (c div 4096) mod 64 < 64 \<and> (c div 64) mod 64 < 64 \<and> c mod 64 < 64
    \<and> (c div 262144 = 0 \<longrightarrow> 16 \<le> (c div 4096) mod 64)
    \<and> (c div 262144 = 4 \<longrightarrow> (c div 4096) mod 64 < 16)
    \<and> c div 262144 * 262144 + (c div 4096) mod 64 * 4096 + (c div 64) mod 64 * 64 + c mod 64 = c"
proof -
  define A r Q m P n where "A = c div 64" and "r = c mod 64" and "Q = A div 64"
    and "m = A mod 64" and "P = Q div 64" and "n = Q mod 64"
  have 1: "c = A * 64 + r" "r < 64" by (simp_all add: A_def r_def)
  have 2: "A = Q * 64 + m" "m < 64" by (simp_all add: Q_def m_def)
  have 3: "Q = P * 64 + n" "n < 64" by (simp_all add: P_def n_def)
  have q: "c div 4096 = Q" unfolding Q_def A_def by (simp add: div_mult2_eq [symmetric])
  have p: "c div 262144 = P" unfolding P_def Q_def A_def by (simp add: div_mult2_eq [symmetric])
  have 4: "(c div 4096) mod 64 = n" "(c div 64) mod 64 = m" "c mod 64 = r"
    by (simp_all add: q n_def m_def A_def r_def)
  have "P < 5 \<and> n < 64 \<and> m < 64 \<and> r < 64 \<and> (P = 0 \<longrightarrow> 16 \<le> n) \<and> (P = 4 \<longrightarrow> n < 16)
        \<and> P * 262144 + n * 4096 + m * 64 + r = c"
    using 1 2 3 assms by auto
  then show ?thesis unfolding p 4 .
qed


lemma digits2:
  fixes c :: nat
  assumes "128 \<le> c" "c < 2048"
  shows "2 \<le> c div 64 \<and> c div 64 < 32 \<and> c mod 64 < 64 \<and> c div 64 * 64 + c mod 64 = c"
proof -
  define A r where "A = c div 64" and "r = c mod 64"
  have 1: "c = A * 64 + r" "r < 64" by (simp_all add: A_def r_def)
  have "2 \<le> A \<and> A < 32 \<and> r < 64 \<and> A * 64 + r = c"
    using 1 assms by auto
  then show ?thesis unfolding A_def r_def .
qed

lemma utf8_decode_encode_char:
  assumes "utf8_encode_char c = Some e"
  shows "utf8_decode (e @ rest) = map_option ((#) c) (utf8_decode rest)"
proof -
  consider (one) "c < 128" | (two) "128 \<le> c" "c < 2048"
    | (three) "2048 \<le> c" "c < 65536" "\<not> (55296 \<le> c \<and> c \<le> 57343)"
    | (four) "65536 \<le> c" "c < 1114112"
    using assms by (auto simp: utf8_encode_char_def split: if_splits)
  then show ?thesis
  proof cases
    case one
    with assms show ?thesis by (auto simp: utf8_encode_char_def)
  next
    case two
    then have e: "e = [192 + c div 64, 128 + c mod 64]"
      using assms by (auto simp: utf8_encode_char_def)
    from digits2 [OF two] utf8_decode_two [of "c div 64" "c mod 64" rest]
    show ?thesis unfolding e by simp
  next
    case three
    then have e: "e = [224 + c div 4096, 128 + (c div 64) mod 64, 128 + c mod 64]"
      using assms by (auto simp: utf8_encode_char_def)
    from digits3 [OF three] utf8_decode_three [of "c div 4096" "(c div 64) mod 64" "c mod 64" rest]
    show ?thesis unfolding e by simp
  next
    case four
    then have e: "e = [240 + c div 262144, 128 + (c div 4096) mod 64, 128 + (c div 64) mod 64,
              128 + c mod 64]"
      using assms by (auto simp: utf8_encode_char_def)
    from digits4 [OF four]
      utf8_decode_four [of "c div 262144" "(c div 4096) mod 64" "(c div 64) mod 64" "c mod 64" rest]
    show ?thesis unfolding e by simp
  qed
qed

lemma mod64_less_128: "(x::nat) mod 64 < 128"
  using mod_less_divisor [of 64 x] by linarith

lemma utf8_encode_char_bytes:
  assumes "utf8_encode_char c = Some e"
  shows "list_all (\<lambda>b. b < 256) e"
proof -
  consider (one) "c < 128" | (two) "128 \<le> c" "c < 2048"
    | (three) "2048 \<le> c" "c < 65536" "\<not> (55296 \<le> c \<and> c \<le> 57343)"
    | (four) "65536 \<le> c" "c < 1114112"
    using assms by (auto simp: utf8_encode_char_def split: if_splits)
  then show ?thesis
  proof cases
    case one
    with assms show ?thesis by (auto simp: utf8_encode_char_def)
  next
    case two
    then have e: "e = [192 + c div 64, 128 + c mod 64]"
      using assms by (auto simp: utf8_encode_char_def)
    from digits2 [OF two] show ?thesis unfolding e by (simp add: mod64_less_128)
  next
    case three
    then have e: "e = [224 + c div 4096, 128 + (c div 64) mod 64, 128 + c mod 64]"
      using assms by (auto simp: utf8_encode_char_def)
    from digits3 [OF three] show ?thesis unfolding e by (simp add: mod64_less_128)
  next
    case four
    then have e: "e = [240 + c div 262144, 128 + (c div 4096) mod 64, 128 + (c div 64) mod 64,
              128 + c mod 64]"
      using assms by (auto simp: utf8_encode_char_def)
    from digits4 [OF four] show ?thesis unfolding e by (simp add: mod64_less_128)
  qed
qed

lemma utf8_encode_bytes:
  "utf8_encode cs = Some bs \<Longrightarrow> list_all (\<lambda>b. b < 256) bs"
proof (induction cs arbitrary: bs)
  case Nil
  then show ?case by simp
next
  case (Cons c cs)
  then obtain e bs' where e: "utf8_encode_char c = Some e" and b: "utf8_encode cs = Some bs'"
    and bs: "bs = e @ bs'"
    by (auto split: option.splits)
  from utf8_encode_char_bytes [OF e] Cons.IH [OF b] show ?case unfolding bs by simp
qed

lemma utf8_decode_encode:
  "utf8_encode cs = Some bs \<Longrightarrow> utf8_decode bs = Some cs"
proof (induction cs arbitrary: bs)
  case Nil
  then show ?case by simp
next
  case (Cons c cs)
  then obtain e bs' where e: "utf8_encode_char c = Some e" and b: "utf8_encode cs = Some bs'"
    and bs: "bs = e @ bs'"
    by (auto split: option.splits)
  show ?case unfolding bs utf8_decode_encode_char [OF e] Cons.IH [OF b] by simp
qed

section \<open>Round trip through the stages\<close>

lemma split_first_colon:
  assumes "58 \<notin> set identifier"
  shows "extract_user_credentials (PyStr (identifier @ [58] @ secret))
         = (PyStr identifier, PyStr secret)"
proof -
  have n: "\<And>x. x \<in> set identifier \<Longrightarrow> x \<noteq> 58"
    using assms by auto
  have t: "takeWhile (\<lambda>c. c \<noteq> 58) (identifier @ 58 # secret) = identifier"
    by (simp add: n)
  have d: "dropWhile (\<lambda>c. c \<noteq> 58) (identifier @ 58 # secret) = 58 # secret"
    by (simp add: n)
  show ?thesis by (simp add: extract_user_credentials_def t d)
qed

lemma decode_b64encode_utf8:
  assumes "utf8_encode s = Some bs"
  shows "decode_base64_authorization_header (PyStr (b64encode bs)) = Inr (PyStr s)"
  using b64decode_b64encode [OF utf8_encode_bytes [OF assms]] utf8_decode_encode [OF assms]
  by (simp add: decode_base64_authorization_header_def bytes_decode_def)

text \<open>
  C5.  Round trip.  Let \<open>identifier\<close> hold no colon (58) and let \<open>bs\<close> be the UTF-8
  encoding of \<open>identifier:secret\<close> (it exists unless the text holds a surrogate, which
  \<open>str.encode\<close> refuses).  On the header \<open>Basic \<close> followed by the Base64 encoding of
  \<open>bs\<close>, the scheme-strip stage returns the Base64 text, the decode stage returns
  \<open>identifier:secret\<close>, and the split stage returns the pair \<open>(identifier, secret)\<close>;
  \<open>secret\<close> may hold colons.
\<close>

theorem basic_round_trip:
  assumes "58 \<notin> set identifier"
    and "utf8_encode (identifier @ [58] @ secret) = Some bs"
  shows "extract_base64_authorization_header (PyStr (ustr ''Basic '' @ b64encode bs))
           = PyStr (b64encode bs)
    \<and> decode_base64_authorization_header (PyStr (b64encode bs))
           = Inr (PyStr (identifier @ [58] @ secret))
    \<and> extract_user_credentials (PyStr (identifier @ [58] @ secret))
           = (PyStr identifier, PyStr secret)"
  using extract_base64_Basic [of "b64encode bs"] decode_b64encode_utf8 [OF assms(2)]
    split_first_colon [OF assms(1), of secret]
  by simp

theorem basic_round_trip_witness:
  "58 \<notin> set (ustr ''bob@x.io'')
   \<and> utf8_encode (ustr ''bob@x.io'' @ [58] @ (ustr ''pa:ss'' @ [233, 8364, 128512]))
       = Some (ustr ''bob@x.io:pa:ss'' @ [195, 169, 226, 130, 172, 240, 159, 152, 128])
   \<and> b64encode (ustr ''bob@x.io:pa:ss'' @ [195, 169, 226, 130, 172, 240, 159, 152, 128])
       = ustr ''Ym9iQHguaW86cGE6c3PDqeKCrPCfmIA=''
   \<and> extract_base64_authorization_header (PyStr (ustr ''Basic Ym9iQHguaW86cGE6c3PDqeKCrPCfmIA=''))
       = PyStr (ustr ''Ym9iQHguaW86cGE6c3PDqeKCrPCfmIA='')
   \<and> decode_base64_authorization_header (PyStr (ustr ''Ym9iQHguaW86cGE6c3PDqeKCrPCfmIA=''))
       = Inr (PyStr (ustr ''bob@x.io:pa:ss'' @ [233, 8364, 128512]))
   \<and> extract_user_credentials (PyStr (ustr ''bob@x.io:pa:ss'' @ [233, 8364, 128512]))
       = (PyStr (ustr ''bob@x.io''), PyStr (ustr ''pa:ss'' @ [233, 8364, 128512]))"
proof -
  have h1: "58 \<notin> set (ustr ''bob@x.io'')" by (simp add: ustr_def)
  have h2: "utf8_encode (ustr ''bob@x.io'' @ [58] @ (ustr ''pa:ss'' @ [233, 8364, 128512]))
       = Some (ustr ''bob@x.io:pa:ss'' @ [195, 169, 226, 130, 172, 240, 159, 152, 128])"
    by (simp add: ustr_def utf8_encode_char_def)
  have h3: "b64encode (ustr ''bob@x.io:pa:ss'' @ [195, 169, 226, 130, 172, 240, 159, 152, 128])
       = ustr ''Ym9iQHguaW86cGE6c3PDqeKCrPCfmIA=''"
    by (simp add: ustr_def b64char_def)
  have e: "ustr ''Basic '' @ ustr ''Ym9iQHguaW86cGE6c3PDqeKCrPCfmIA=''
       = ustr ''Basic Ym9iQHguaW86cGE6c3PDqeKCrPCfmIA=''"
    by (simp add: ustr_def)
  have c: "ustr ''bob@x.io'' @ [58] @ (ustr ''pa:ss'' @ [233, 8364, 128512])
       = ustr ''bob@x.io:pa:ss'' @ [233, 8364, 128512]"
    by (simp add: ustr_def)
  show ?thesis
    using h1 h2 h3 basic_round_trip [OF h1 h2]
    unfolding h3 e c by simp
qed

section \<open>The decode stage on ASCII input\<close>

lemma a2b_loop_filter:
  "a2b_loop q l p out (filter (\<lambda>c. c = 61 \<or> table_a2b_base64 c \<noteq> None) s)
   = a2b_loop q l p out s"
proof (induction s arbitrary: q l p out)
  case Nil
  show ?case by simp
next
  case (Cons c s)
  show ?case
  proof (cases "c = 61 \<or> table_a2b_base64 c \<noteq> None")
    case True
    then show ?thesis using Cons.IH by auto
  next
    case False
    then show ?thesis using Cons.IH by simp
  qed
qed

lemma a2b_loop_error:
  "a2b_loop q l p out s = Inl e \<Longrightarrow> e = BinasciiError"
proof (induction s arbitrary: q l p out)
  case Nil
  then show ?case by (simp split: if_splits)
next
  case (Cons c s)
  then show ?case by (auto split: if_splits option.splits)
qed

lemma b64decode_filter:
  assumes "list_all (\<lambda>c. c < 128) s"
  shows "b64decode (filter (\<lambda>c. c = 61 \<or> table_a2b_base64 c \<noteq> None) s) = b64decode s"
proof -
  have "list_all (\<lambda>c. c < 128) (filter (\<lambda>c. c = 61 \<or> table_a2b_base64 c \<noteq> None) s)"
    using assms by (simp add: list_all_iff)
  then show ?thesis
    using assms a2b_loop_filter [of 0 0 0 "[]" s] by (simp add: b64decode_def)
qed

lemma b64decode_ascii_error:
  assumes "list_all (\<lambda>c. c < 128) s" "b64decode s = Inl e"
  shows "e = BinasciiError"
  using assms by (auto simp: b64decode_def dest: a2b_loop_error)

lemma decode_base64_cases:
  assumes "list_all (\<lambda>c. c < 128) s"
  shows "decode_base64_authorization_header (PyStr s) =
     (case b64decode s of
        Inl e \<Rightarrow> Inr PyNone
      | Inr bs \<Rightarrow> (case utf8_decode bs of None \<Rightarrow> Inr PyNone | Some t \<Rightarrow> Inr (PyStr t)))"
proof (cases "b64decode s")
  case (Inl e)
  with assms have "e = BinasciiError" by (rule b64decode_ascii_error)
  with Inl show ?thesis by (simp add: decode_base64_authorization_header_def)
next
  case (Inr bs)
  then show ?thesis
    by (simp add: decode_base64_authorization_header_def bytes_decode_def split: option.splits)
qed

text \<open>
  C3, amended.  On an ASCII string the decode stage does not reject the characters outside
  the Base64 alphabet: it ignores them, so that its result is its result on the string
  without them (the pad \<open>=\<close> is kept).  It returns the text \<open>t\<close> exactly when the
  Base64 decoder accepts the string and the decoded bytes are the UTF-8 form of \<open>t\<close>, and
  \<open>None\<close> exactly when the decoder raises \<open>binascii.Error\<close> or the bytes are not valid
  UTF-8.  In particular, when the string without the ignored characters is the standard
  Base64 encoding of \<open>bs\<close>, the result is the UTF-8 reading of \<open>bs\<close>, or \<open>None\<close> when
  \<open>bs\<close> is not valid UTF-8.
\<close>

theorem decode_lenient:
  assumes "list_all (\<lambda>c. c < 128) s"
  shows "decode_base64_authorization_header (PyStr s)
           = decode_base64_authorization_header
               (PyStr (filter (\<lambda>c. c = 61 \<or> table_a2b_base64 c \<noteq> None) s))
    \<and> (decode_base64_authorization_header (PyStr s) = Inr (PyStr t)
         \<longleftrightarrow> (\<exists>bs. b64decode s = Inr bs \<and> utf8_decode bs = Some t))
    \<and> (decode_base64_authorization_header (PyStr s) = Inr PyNone
         \<longleftrightarrow> b64decode s = Inl BinasciiError
             \<or> (\<exists>bs. b64decode s = Inr bs \<and> utf8_decode bs = None))
    \<and> (list_all (\<lambda>b. b < 256) bs
         \<and> filter (\<lambda>c. c = 61 \<or> table_a2b_base64 c \<noteq> None) s = b64encode bs
         \<longrightarrow> decode_base64_authorization_header (PyStr s)
             = (case utf8_decode bs of None \<Rightarrow> Inr PyNone | Some t \<Rightarrow> Inr (PyStr t)))"
proof (intro conjI impI)
  let ?f = "filter (\<lambda>c. c = 61 \<or> table_a2b_base64 c \<noteq> None) s"
  have fa: "list_all (\<lambda>c. c < 128) ?f"
    using assms by (simp add: list_all_iff)
  show "decode_base64_authorization_header (PyStr s) = decode_base64_authorization_header (PyStr ?f)"
    unfolding decode_base64_cases [OF assms] decode_base64_cases [OF fa] b64decode_filter [OF assms] ..
  show "decode_base64_authorization_header (PyStr s) = Inr (PyStr t)
         \<longleftrightarrow> (\<exists>bs. b64decode s = Inr bs \<and> utf8_decode bs = Some t)"
    unfolding decode_base64_cases [OF assms] by (auto split: sum.splits option.splits)
  show "decode_base64_authorization_header (PyStr s) = Inr PyNone
         \<longleftrightarrow> b64decode s = Inl BinasciiError
             \<or> (\<exists>bs. b64decode s = Inr bs \<and> utf8_decode bs = None)"
    unfolding decode_base64_cases [OF assms]
    using b64decode_ascii_error [OF assms] by (auto split: sum.splits option.splits)
  assume "list_all (\<lambda>b. b < 256) bs \<and> ?f = b64encode bs"
  then have "b64decode s = Inr bs"
    using b64decode_filter [OF assms] b64decode_b64encode [of bs] by simp
  then show "decode_base64_authorization_header (PyStr s)
             = (case utf8_decode bs of None \<Rightarrow> Inr PyNone | Some t \<Rightarrow> Inr (PyStr t))"
    unfolding decode_base64_cases [OF assms] by simp
qed

theorem decode_lenient_witness:
  "list_all (\<lambda>c. c < 128) (ustr ''!aG k='')
   \<and> list_all (\<lambda>b. b < 256) (ustr ''hi'')
   \<and> filter (\<lambda>c. c = 61 \<or> table_a2b_base64 c \<noteq> None) (ustr ''!aG k='') = b64encode (ustr ''hi'')
   \<and> decode_base64_authorization_header (PyStr (ustr ''!aG k=''))
       = decode_base64_authorization_header (PyStr (ustr ''aGk=''))
   \<and> decode_base64_authorization_header (PyStr (ustr ''!aG k='')) = Inr (PyStr (ustr ''hi''))"
proof -
  have h: "list_all (\<lambda>c. c < 128) (ustr ''!aG k='')" by (simp add: ustr_def)
  have b: "list_all (\<lambda>b. b < 256) (ustr ''hi'')" by (simp add: ustr_def)
  have f: "filter (\<lambda>c. c = 61 \<or> table_a2b_base64 c \<noteq> None) (ustr ''!aG k='') = ustr ''aGk=''"
    by (simp add: ustr_def table_a2b_base64_def)
  have e: "b64encode (ustr ''hi'') = ustr ''aGk=''"
    by (simp add: ustr_def b64char_def)
  have u: "utf8_decode (ustr ''hi'') = Some (ustr ''hi'')"
    by (simp add: ustr_def)
  note d = decode_lenient [OF h, of "ustr ''hi''" "ustr ''hi''"]
  from d have d1: "decode_base64_authorization_header (PyStr (ustr ''!aG k=''))
       = decode_base64_authorization_header (PyStr (ustr ''aGk=''))"
    unfolding f by (rule conjunct1)
  note d4 = d [THEN conjunct2, THEN conjunct2, THEN conjunct2, unfolded f e u]
  from d4 b have d2: "decode_base64_authorization_header (PyStr (ustr ''!aG k=''))
       = Inr (PyStr (ustr ''hi''))"
    by simp
  from h b f e d1 d2 show ?thesis by simp
qed

section \<open>The outcomes of \<open>current_user\<close>\<close>

text \<open>
  The three outcomes of \<open>current_user\<close>, for every request and every user model: it
  returns a principal exactly when the five stages succeed, it raises exactly when the
  header is \<open>Basic \<close> followed by a payload with a non-ASCII character (and then the
  exception is \<open>ValueError\<close>), and it returns \<open>None\<close> otherwise.
\<close>

lemma scheme_prefix_cases:
  assumes "extract_base64_authorization_header v \<noteq> PyNone"
  shows "\<exists>payload. v = PyStr (ustr ''Basic '' @ payload)"
proof -
  from assms obtain s where v: "v = PyStr s"
    by (cases v) (simp_all add: extract_base64_authorization_header_def)
  with assms have "startswith s (ustr ''Basic '')"
    by (simp add: extract_base64_PyStr split: if_splits)
  then show ?thesis unfolding v startswith_iff by simp
qed

lemma current_user_stages:
  assumes "authorization_header req = PyStr (ustr ''Basic '' @ payload)"
    and "decode_base64_authorization_header (PyStr payload) = Inr (PyStr d)"
  shows "current_user User req =
     Inr (if 58 \<notin> set d then None
          else (case search User (takeWhile (\<lambda>c. c \<noteq> 58) d) of
                  [] \<Rightarrow> None
                | user # _ \<Rightarrow>
                    if is_valid_password User user (tl (dropWhile (\<lambda>c. c \<noteq> 58) d))
                    then Some user else None))"
  using assms
  by (simp add: current_user_def extract_base64_Basic extract_user_credentials_def
        user_object_from_credentials_def split: list.splits)

lemma current_user_principal_iff:
  "current_user User req = Inr (Some u) \<longleftrightarrow>
     (\<exists>payload d rest.
        authorization_header req = PyStr (ustr ''Basic '' @ payload)
        \<and> decode_base64_authorization_header (PyStr payload) = Inr (PyStr d)
        \<and> 58 \<in> set d
        \<and> search User (takeWhile (\<lambda>c. c \<noteq> 58) d) = u # rest
        \<and> is_valid_password User u (tl (dropWhile (\<lambda>c. c \<noteq> 58) d)))"
proof
  assume r: "current_user User req = Inr (Some u)"
  then have "extract_base64_authorization_header (authorization_header req) \<noteq> PyNone"
    by (auto simp: current_user_def Let_def extract_base64_authorization_header_def
          split: if_splits)
  then obtain payload where h: "authorization_header req = PyStr (ustr ''Basic '' @ payload)"
    using scheme_prefix_cases by blast
  from r h obtain d where d: "decode_base64_authorization_header (PyStr payload) = Inr (PyStr d)"
    by (cases "decode_base64_authorization_header (PyStr payload)";
        cases "projr (decode_base64_authorization_header (PyStr payload))")
       (auto simp: current_user_def extract_base64_Basic extract_user_credentials_def
          split: if_splits)
  from r show "\<exists>payload d rest.
        authorization_header req = PyStr (ustr ''Basic '' @ payload)
        \<and> decode_base64_authorization_header (PyStr payload) = Inr (PyStr d)
        \<and> 58 \<in> set d
        \<and> search User (takeWhile (\<lambda>c. c \<noteq> 58) d) = u # rest
        \<and> is_valid_password User u (tl (dropWhile (\<lambda>c. c \<noteq> 58) d))"
    unfolding current_user_stages [OF h d] using h d
    by (auto split: if_splits list.splits)
next
  assume "\<exists>payload d rest.
        authorization_header req = PyStr (ustr ''Basic '' @ payload)
        \<and> decode_base64_authorization_header (PyStr payload) = Inr (PyStr d)
        \<and> 58 \<in> set d
        \<and> search User (takeWhile (\<lambda>c. c \<noteq> 58) d) = u # rest
        \<and> is_valid_password User u (tl (dropWhile (\<lambda>c. c \<noteq> 58) d))"
  then obtain payload d rest where
    h: "authorization_header req = PyStr (ustr ''Basic '' @ payload)"
    and d: "decode_base64_authorization_header (PyStr payload) = Inr (PyStr d)"
    and o: "58 \<in> set d" "search User (takeWhile (\<lambda>c. c \<noteq> 58) d) = u # rest"
      "is_valid_password User u (tl (dropWhile (\<lambda>c. c \<noteq> 58) d))"
    by blast
  show "current_user User req = Inr (Some u)"
    unfolding current_user_stages [OF h d] using o by simp
qed


lemma current_user_raises_iff:
  "current_user User req = Inl e \<longleftrightarrow>
     (\<exists>payload. authorization_header req = PyStr (ustr ''Basic '' @ payload)
        \<and> \<not> list_all (\<lambda>c. c < 128) payload \<and> e = ValueError)"
proof
  assume r: "current_user User req = Inl e"
  then have "extract_base64_authorization_header (authorization_header req) \<noteq> PyNone"
    by (auto simp: current_user_def Let_def split: if_splits)
  then obtain payload where h: "authorization_header req = PyStr (ustr ''Basic '' @ payload)"
    using scheme_prefix_cases by blast
  from r h have d: "decode_base64_authorization_header (PyStr payload) = Inl e"
    by (auto simp: current_user_def extract_base64_Basic split: sum.splits if_splits prod.splits)
  have n: "\<not> list_all (\<lambda>c. c < 128) payload"
  proof
    assume "list_all (\<lambda>c. c < 128) payload"
    from decode_base64_cases [OF this] d show False
      by (simp split: sum.splits option.splits)
  qed
  with d have "e = ValueError" by (simp add: b64decode_non_ascii)
  with h n show "\<exists>payload. authorization_header req = PyStr (ustr ''Basic '' @ payload)
        \<and> \<not> list_all (\<lambda>c. c < 128) payload \<and> e = ValueError"
    by blast
next
  assume "\<exists>payload. authorization_header req = PyStr (ustr ''Basic '' @ payload)
        \<and> \<not> list_all (\<lambda>c. c < 128) payload \<and> e = ValueError"
  then show "current_user User req = Inl e"
    using current_user_non_ascii by blast
qed

end
